theory Spec2Isabelle
  imports Main
begin

section \<open>Python primitives used by PedersenVSS.py\<close>

text \<open>
  Python integers are unbounded, so they are \<open>int\<close>. Python's \<open>%\<close> and \<open>//\<close> are floor
  division, as \<open>mod\<close> and \<open>div\<close> on \<open>int\<close> are, except that Python raises
  ZeroDivisionError on a zero divisor. Every exception of the source is a value of
  \<open>error\<close>; a function that can raise returns \<open>error + 'a\<close> with \<open>Inl\<close> the exception.
  Python's recursion limit and memory are not modelled.
\<close>

datatype error = ValueError string | ZeroDivisionError | IndexError | OverflowError

definition py_mod :: "int \<Rightarrow> int \<Rightarrow> error + int" where
  "py_mod a m = (if m = 0 then Inl ZeroDivisionError else Inr (a mod m))"

definition py_index :: "'a list \<Rightarrow> nat \<Rightarrow> error + 'a" where
  \<comment> \<open>\<open>xs[j]\<close> for a non-negative \<open>j\<close>\<close>
  "py_index xs j = (if j < length xs then Inr (xs ! j) else Inl IndexError)"

definition py_slice_to :: "'a list \<Rightarrow> int \<Rightarrow> 'a list" where
  \<comment> \<open>\<open>xs[:k]\<close>: a negative \<open>k\<close> counts from the end\<close>
  "py_slice_to xs k =
     (if 0 \<le> k then take (nat k) xs else take (nat (int (length xs) + k)) xs)"

text \<open>
  \<open>secrets.randbelow(n)\<close> raises ValueError unless \<open>n\<close> is positive and otherwise
  returns a fresh value. The random source is a tape of outcomes with a read position;
  that each outcome lies in \<open>[0, n)\<close> is a hypothesis of the theorems that need it.
\<close>

type_synonym rng = "(nat \<Rightarrow> int) \<times> nat"

definition randbelow :: "int \<Rightarrow> rng \<Rightarrow> error + (int \<times> rng)" where
  "randbelow n r =
     (if n \<le> 0 then Inl (ValueError ''Upper bound must be positive'')
      else Inr (fst r (snd r), (fst r, Suc (snd r))))"

section \<open>class PedersenVSS\<close>

record vss =
  vss_p :: int
  vss_g :: int
  vss_h :: int

definition PedersenVSS :: "int \<Rightarrow> vss" where
  "PedersenVSS prime = \<lparr>vss_p = prime, vss_g = 2, vss_h = 3\<rparr>"

definition default_prime :: int where
  "default_prime = 2 ^ 127 - 1"

subsection \<open>mod_inverse\<close>

function extended_gcd :: "int \<Rightarrow> int \<Rightarrow> int \<times> int \<times> int" where
  "extended_gcd a b =
     (if a = 0 then (b, 0, 1)
      else (case extended_gcd (b mod a) a of
              (g, x1, y1) \<Rightarrow> (g, y1 - (b div a) * x1, x1)))"
  by pat_completeness auto
termination
  by (relation "measure (\<lambda>(a, b). nat \<bar>a\<bar>)") (auto simp: abs_mod_less)

declare extended_gcd.simps [simp del]

definition mod_inverse :: "int \<Rightarrow> int \<Rightarrow> error + int" where
  "mod_inverse a m =
     (case py_mod a m of
        Inl e \<Rightarrow> Inl e
      | Inr r \<Rightarrow>
          (case extended_gcd r m of
             (g, x, _) \<Rightarrow>
               if g \<noteq> 1 then Inl (ValueError ''Modular inverse does not exist'')
               else (case py_mod x m of
                       Inl e \<Rightarrow> Inl e
                     | Inr x' \<Rightarrow> py_mod (x' + m) m)))"

subsection \<open>generate_polynomial\<close>

fun generate_loop :: "vss \<Rightarrow> nat \<Rightarrow> int list \<Rightarrow> rng \<Rightarrow> error + (int list \<times> rng)" where
  "generate_loop self 0 coefficients r = Inr (coefficients, r)"
| "generate_loop self (Suc k) coefficients r =
     (case randbelow (vss_p self) r of
        Inl e \<Rightarrow> Inl e
      | Inr (v, r') \<Rightarrow> generate_loop self k (coefficients @ [v]) r')"

definition generate_polynomial :: "vss \<Rightarrow> int \<Rightarrow> int \<Rightarrow> rng \<Rightarrow> error + (int list \<times> rng)" where
  "generate_polynomial self secret threshold r =
     generate_loop self (nat (threshold - 1)) [secret] r"

subsection \<open>evaluate_polynomial\<close>

fun horner_loop :: "vss \<Rightarrow> int \<Rightarrow> int list \<Rightarrow> int \<Rightarrow> error + int" where
  "horner_loop self x [] result = Inr result"
| "horner_loop self x (coeff # cs) result =
     (case py_mod (result * x + coeff) (vss_p self) of
        Inl e \<Rightarrow> Inl e
      | Inr result' \<Rightarrow> horner_loop self x cs result')"

definition evaluate_polynomial :: "vss \<Rightarrow> int list \<Rightarrow> int \<Rightarrow> error + int" where
  "evaluate_polynomial self coeffs x = horner_loop self x (rev coeffs) 0"

subsection \<open>pow_mod\<close>

function pow_loop :: "int \<Rightarrow> int \<Rightarrow> int \<Rightarrow> int \<Rightarrow> error + int" where
  "pow_loop result base exp m =
     (if exp > 0 then
        (case (if exp mod 2 = 1 then py_mod (result * base) m else Inr result) of
           Inl e \<Rightarrow> Inl e
         | Inr result' \<Rightarrow>
             (case py_mod (base * base) m of
                Inl e \<Rightarrow> Inl e
              | Inr base' \<Rightarrow> pow_loop result' base' (exp div 2) m))
      else Inr result)"
  by pat_completeness auto
termination
  by (relation "measure (\<lambda>(result, base, exp, m). nat exp)") auto

declare pow_loop.simps [simp del]

definition pow_mod :: "int \<Rightarrow> int \<Rightarrow> int \<Rightarrow> error + int" where
  "pow_mod base exp m =
     (case py_mod base m of
        Inl e \<Rightarrow> Inl e
      | Inr base' \<Rightarrow> pow_loop 1 base' exp m)"

subsection \<open>generate_shares_and_commitments\<close>

fun shares_loop ::
  "vss \<Rightarrow> int list \<Rightarrow> int list \<Rightarrow> int list \<Rightarrow> (int \<times> int) list \<Rightarrow> error + (int \<times> int) list" where
  "shares_loop self f_coeffs g_coeffs [] shares = Inr shares"
| "shares_loop self f_coeffs g_coeffs (i # rest) shares =
     (case evaluate_polynomial self f_coeffs i of
        Inl e \<Rightarrow> Inl e
      | Inr f_i \<Rightarrow>
          (case evaluate_polynomial self g_coeffs i of
             Inl e \<Rightarrow> Inl e
           | Inr g_i \<Rightarrow> shares_loop self f_coeffs g_coeffs rest (shares @ [(f_i, g_i)])))"

definition commitment :: "vss \<Rightarrow> int list \<Rightarrow> int list \<Rightarrow> nat \<Rightarrow> error + int" where
  \<comment> \<open>the body of the commitment loop at index \<open>j\<close>\<close>
  "commitment self f_coeffs g_coeffs j =
     (case py_index f_coeffs j of
        Inl e \<Rightarrow> Inl e
      | Inr a \<Rightarrow>
          (case pow_mod (vss_g self) a (vss_p self) of
             Inl e \<Rightarrow> Inl e
           | Inr ga \<Rightarrow>
               (case py_index g_coeffs j of
                  Inl e \<Rightarrow> Inl e
                | Inr b \<Rightarrow>
                    (case pow_mod (vss_h self) b (vss_p self) of
                       Inl e \<Rightarrow> Inl e
                     | Inr hb \<Rightarrow> py_mod (ga * hb) (vss_p self)))))"

fun commitments_loop ::
  "vss \<Rightarrow> int list \<Rightarrow> int list \<Rightarrow> nat list \<Rightarrow> int list \<Rightarrow> error + int list" where
  "commitments_loop self f_coeffs g_coeffs [] commitments = Inr commitments"
| "commitments_loop self f_coeffs g_coeffs (j # rest) commitments =
     (case commitment self f_coeffs g_coeffs j of
        Inl e \<Rightarrow> Inl e
      | Inr c \<Rightarrow> commitments_loop self f_coeffs g_coeffs rest (commitments @ [c]))"

definition generate_shares_and_commitments ::
  "vss \<Rightarrow> int \<Rightarrow> int \<Rightarrow> int \<Rightarrow> rng
     \<Rightarrow> error + (((int \<times> int) list \<times> int list \<times> int list) \<times> rng)" where
  "generate_shares_and_commitments self secret threshold num_shares r =
     (case generate_polynomial self secret threshold r of
        Inl e \<Rightarrow> Inl e
      | Inr (f_coeffs, r1) \<Rightarrow>
          (case generate_polynomial self 0 threshold r1 of
             Inl e \<Rightarrow> Inl e
           | Inr (g_coeffs, r2) \<Rightarrow>
               (case shares_loop self f_coeffs g_coeffs [1..num_shares] [] of
                  Inl e \<Rightarrow> Inl e
                | Inr shares \<Rightarrow>
                    (case commitments_loop self f_coeffs g_coeffs [0..<nat threshold] [] of
                       Inl e \<Rightarrow> Inl e
                     | Inr commitments \<Rightarrow> Inr ((shares, commitments, f_coeffs), r2)))))"

subsection \<open>verify_share\<close>

fun verify_loop :: "vss \<Rightarrow> int \<Rightarrow> int list \<Rightarrow> nat list \<Rightarrow> int \<Rightarrow> error + int" where
  "verify_loop self share_index commitments [] right = Inr right"
| "verify_loop self share_index commitments (j # rest) right =
     (case pow_mod share_index (int j) (vss_p self - 1) of
        Inl e \<Rightarrow> Inl e
      | Inr power_j \<Rightarrow>
          (case py_index commitments j of
             Inl e \<Rightarrow> Inl e
           | Inr c \<Rightarrow>
               (case pow_mod c power_j (vss_p self) of
                  Inl e \<Rightarrow> Inl e
                | Inr cp \<Rightarrow>
                    (case py_mod (right * cp) (vss_p self) of
                       Inl e \<Rightarrow> Inl e
                     | Inr right' \<Rightarrow> verify_loop self share_index commitments rest right'))))"

definition verify_share :: "vss \<Rightarrow> int \<Rightarrow> int \<times> int \<Rightarrow> int list \<Rightarrow> int \<Rightarrow> error + bool" where
  "verify_share self share_index share commitments threshold =
     (case share of (f_i, g_i) \<Rightarrow>
        (case pow_mod (vss_g self) f_i (vss_p self) of
           Inl e \<Rightarrow> Inl e
         | Inr gf \<Rightarrow>
             (case pow_mod (vss_h self) g_i (vss_p self) of
                Inl e \<Rightarrow> Inl e
              | Inr hg \<Rightarrow>
                  (case py_mod (gf * hg) (vss_p self) of
                     Inl e \<Rightarrow> Inl e
                   | Inr left \<Rightarrow>
                       (case verify_loop self share_index commitments [0..<nat threshold] 1 of
                          Inl e \<Rightarrow> Inl e
                        | Inr right \<Rightarrow> Inr (left = right))))))"

subsection \<open>lagrange_interpolation\<close>

type_synonym revealed = "int \<times> (int \<times> int)"

fun lagrange_inner ::
  "vss \<Rightarrow> nat \<Rightarrow> int \<Rightarrow> revealed list \<Rightarrow> nat \<Rightarrow> int \<times> int \<Rightarrow> error + (int \<times> int)" where
  "lagrange_inner self i x_i [] j (numerator, denominator) = Inr (numerator, denominator)"
| "lagrange_inner self i x_i ((x_j, _) # rest) j (numerator, denominator) =
     (if i \<noteq> j then
        (case py_mod (numerator * (- x_j)) (vss_p self) of
           Inl e \<Rightarrow> Inl e
         | Inr numerator' \<Rightarrow>
             (case py_mod (denominator * (x_i - x_j)) (vss_p self) of
                Inl e \<Rightarrow> Inl e
              | Inr denominator' \<Rightarrow>
                  lagrange_inner self i x_i rest (Suc j) (numerator', denominator')))
      else lagrange_inner self i x_i rest (Suc j) (numerator, denominator))"

fun lagrange_outer ::
  "vss \<Rightarrow> revealed list \<Rightarrow> revealed list \<Rightarrow> nat \<Rightarrow> int \<Rightarrow> error + int" where
  "lagrange_outer self shares [] i secret = Inr secret"
| "lagrange_outer self shares ((x_i, (f_i, _)) # rest) i secret =
     (case lagrange_inner self i x_i shares 0 (1, 1) of
        Inl e \<Rightarrow> Inl e
      | Inr (numerator, denominator) \<Rightarrow>
          (case mod_inverse denominator (vss_p self) of
             Inl e \<Rightarrow> Inl e
           | Inr dinv \<Rightarrow>
               (case py_mod (numerator * dinv) (vss_p self) of
                  Inl e \<Rightarrow> Inl e
                | Inr lagrange_coeff \<Rightarrow>
                    (case py_mod (secret + f_i * lagrange_coeff) (vss_p self) of
                       Inl e \<Rightarrow> Inl e
                     | Inr secret' \<Rightarrow> lagrange_outer self shares rest (Suc i) secret'))))"

definition lagrange_interpolation :: "vss \<Rightarrow> revealed list \<Rightarrow> int \<Rightarrow> error + int" where
  "lagrange_interpolation self shares threshold =
     (if int (length shares) < threshold
      then Inl (ValueError ''Not enough shares for reconstruction'')
      else (let shares' = py_slice_to shares threshold
            in lagrange_outer self shares' shares' 0 0))"

subsection \<open>hash_secret\<close>

text \<open>
  \<open>secret.to_bytes(32, byteorder='big')\<close> raises OverflowError on a negative integer and
  on one of more than 32 bytes. \<open>hashlib.sha256(...).hexdigest()\<close> is a parameter
  \<open>sha256\<close> of the model, from the 32 bytes to the digest string.
\<close>

definition to_bytes32 :: "int \<Rightarrow> error + nat list" where
  "to_bytes32 n =
     (if n < 0 \<or> 2 ^ 256 \<le> n then Inl OverflowError
      else Inr (map (\<lambda>k. nat ((n div 256 ^ (31 - k)) mod 256)) [0..<32]))"

definition hash_secret :: "(nat list \<Rightarrow> string) \<Rightarrow> int \<Rightarrow> error + string" where
  "hash_secret sha256 secret =
     (case to_bytes32 secret of
        Inl e \<Rightarrow> Inl e
      | Inr secret_bytes \<Rightarrow> Inr (sha256 secret_bytes))"

section \<open>class CryptoWill\<close>

record trustee_share =
  ts_trustee_index :: int
  ts_share :: "int \<times> int"
  ts_verified :: bool
  ts_revealed :: bool

record will_data =
  wd_secret :: int
  wd_secret_hash :: string
  wd_heirs :: "string list"
  wd_heir_percentages :: "int list"
  wd_num_trustees :: int
  wd_threshold :: int
  wd_commitments :: "int list"
  wd_trustee_shares :: "trustee_share list"
  wd_f_coefficients :: "int list"
  wd_prime :: int
  wd_generator_g :: int
  wd_generator_h :: int

text \<open>
  The dictionary built by \<open>create_will\<close> is a record, one field per key (prefixed
  \<open>wd_\<close>, the trustee entries \<open>ts_\<close>). \<open>reconstruct_secret\<close> receives it as a mutable
  object; the model returns the dictionary it leaves behind together with the result.
\<close>

definition reconstruct_secret ::
  "(nat list \<Rightarrow> string) \<Rightarrow> vss \<Rightarrow> will_data \<Rightarrow> revealed list
     \<Rightarrow> will_data \<times> (error + (bool \<times> int))" where
  "reconstruct_secret sha256 self_vss will revealed_shares =
     (if int (length revealed_shares) < wd_threshold will then (will, Inr (False, 0))
      else (case lagrange_interpolation self_vss revealed_shares (wd_threshold will) of
              Inl e \<Rightarrow> (will, Inl e)
            | Inr reconstructed_secret \<Rightarrow>
                (case hash_secret sha256 reconstructed_secret of
                   Inl e \<Rightarrow> (will, Inl e)
                 | Inr reconstructed_hash \<Rightarrow>
                     (will, Inr (reconstructed_hash = wd_secret_hash will, reconstructed_secret)))))"

section \<open>Reference definitions and example values\<close>

text \<open>A will as \<open>create_will\<close> builds it for two heirs, three trustees and threshold 2.\<close>

definition example_will :: will_data where
  "example_will = \<lparr>wd_secret = 42, wd_secret_hash = ''00'', wd_heirs = [''0x12'', ''0x23''],
     wd_heir_percentages = [60, 40], wd_num_trustees = 3, wd_threshold = 2,
     wd_commitments = [4398046511104, 1],
     wd_trustee_shares = [], wd_f_coefficients = [42, 0], wd_prime = default_prime,
     wd_generator_g = 2, wd_generator_h = 3\<rparr>"

text \<open>
  The reference value of a polynomial, as the specification writes it: the sum over
  \<open>j\<close> of \<open>coeffs[j] * x^j\<close>.
\<close>

definition poly_ref :: "int list \<Rightarrow> int \<Rightarrow> int" where
  "poly_ref coeffs x = (\<Sum>j<length coeffs. coeffs ! j * x ^ j)"

text \<open>
  The value \<open>pow_mod\<close> returns for a non-zero modulus (lemma \<open>pow_mod_value\<close>); an
  abbreviation for the proofs about commitments.
\<close>

definition pow_val :: "int \<Rightarrow> int \<Rightarrow> int \<Rightarrow> int" where
  "pow_val b e m = (if 0 < e then (b ^ nat e) mod m else 1)"

text \<open>
  The inner loop of \<open>lagrange_interpolation\<close> without its reductions: \<open>skip_prod i j vs\<close>
  multiplies the entries of \<open>vs\<close> whose position, counted from \<open>j\<close>, is not \<open>i\<close>.
  \<open>num_of\<close> and \<open>den_of\<close> are the numerator and the denominator of the Lagrange
  coefficient at position \<open>i\<close> as integers.
\<close>

fun skip_prod :: "nat \<Rightarrow> nat \<Rightarrow> int list \<Rightarrow> int" where
  "skip_prod i j [] = 1"
| "skip_prod i j (v # vs) =
     (if i \<noteq> j then v * skip_prod i (Suc j) vs else skip_prod i (Suc j) vs)"

definition num_of :: "revealed list \<Rightarrow> nat \<Rightarrow> int" where
  "num_of shares i = skip_prod i 0 (map (\<lambda>s. - fst s) shares)"

definition den_of :: "revealed list \<Rightarrow> nat \<Rightarrow> int \<Rightarrow> int" where
  "den_of shares i x = skip_prod i 0 (map (\<lambda>s. x - fst s) shares)"

section \<open>Basic facts\<close>

lemma py_mod_nz: "m \<noteq> 0 \<Longrightarrow> py_mod a m = Inr (a mod m)"
  by (simp add: py_mod_def)

section \<open>Reconstruction with too few shares\<close>

text \<open>
  C3. Whenever the list of shares is strictly shorter than the threshold,
  \<open>lagrange_interpolation\<close> raises the ValueError "Not enough shares for reconstruction"
  (the insufficient-shares error of the specification) and returns no value.
\<close>

theorem insufficient_shares_fail:
  "int (length shares) < threshold \<Longrightarrow>
   lagrange_interpolation self shares threshold =
     Inl (ValueError ''Not enough shares for reconstruction'')"
  by (simp add: lagrange_interpolation_def)

theorem insufficient_shares_fail_witness:
  "int (length [(1, (5, 0)) :: revealed]) < 2 \<and>
   lagrange_interpolation (PedersenVSS default_prime) [(1, (5, 0))] 2 =
     Inl (ValueError ''Not enough shares for reconstruction'')"
  using insufficient_shares_fail [of "[(1, (5, 0))]" 2 "PedersenVSS default_prime"] by simp

text \<open>
  C10. When fewer shares are revealed than the will's threshold,
  \<open>CryptoWill.reconstruct_secret\<close> returns \<open>(False, 0)\<close>, raises nothing and leaves the
  will as it was.
\<close>

theorem facade_too_few:
  "int (length revealed_shares) < wd_threshold will \<Longrightarrow>
   reconstruct_secret sha256 self_vss will revealed_shares = (will, Inr (False, 0))"
  by (simp add: reconstruct_secret_def)

theorem facade_too_few_witness:
  "int (length [(1, (42, 0)) :: revealed]) < wd_threshold example_will \<and>
   reconstruct_secret (\<lambda>bs. ''00'') (PedersenVSS default_prime) example_will [(1, (42, 0))]
     = (example_will, Inr (False, 0))"
  using facade_too_few [of "[(1, (42, 0))]" example_will "\<lambda>bs. ''00''" "PedersenVSS default_prime"]
  by (simp add: example_will_def)

section \<open>Verification of honest shares\<close>

text \<open>
  C1. Every share produced by \<open>generate_shares_and_commitments\<close> should pass
  \<open>verify_share\<close> against the commitments of the same call. The code does not achieve
  this: the shares are polynomial values reduced modulo \<open>p\<close>, while the commitments
  carry the coefficients in exponents, which live modulo \<open>p - 1\<close>. With the default
  prime, secret 42, threshold 2, two shares and the random draws \<open>p - 1\<close> (for f) and
  \<open>0\<close> (for g), both generated shares are rejected.
\<close>

theorem honest_share_rejected:
  "(case generate_shares_and_commitments (PedersenVSS default_prime) 42 2 2
          (\<lambda>k. if k = 0 then default_prime - 1 else 0, 0) of
      Inl e \<Rightarrow> None
    | Inr ((shares, commitments, f_coeffs), r) \<Rightarrow>
        Some (shares, commitments, f_coeffs,
              verify_share (PedersenVSS default_prime) 1 (shares ! 0) commitments 2,
              verify_share (PedersenVSS default_prime) 2 (shares ! 1) commitments 2))
   = Some ([(41, 0), (40, 0)], [4398046511104, 1],
           [42, 170141183460469231731687303715884105726], Inr False, Inr False)"
  by code_simp

section \<open>pow_mod computes modular powers\<close>

lemma nat_half_split:
  assumes "0 < (e::int)"
  shows "nat e = 2 * nat (e div 2) + nat (e mod 2)"
proof -
  have nn: "0 \<le> 2 * (e div 2)" "0 \<le> e mod 2"
    using assms by simp_all
  have "nat (2 * (e div 2) + e mod 2) = nat (2 * (e div 2)) + nat (e mod 2)"
    using nn by (rule nat_add_distrib)
  moreover have "nat (2 * (e div 2)) = 2 * nat (e div 2)"
    by (simp add: nat_mult_distrib)
  moreover have "2 * (e div 2) + e mod 2 = e"
    by simp
  ultimately show ?thesis by metis
qed

lemma pow_loop_value:
  "m \<noteq> 0 \<Longrightarrow> pow_loop r b e m = Inr (if 0 < e then (r * b ^ nat e) mod m else r)"
proof (induction r b e m rule: pow_loop.induct)
  case (1 r b e m)
  show ?case
  proof (cases "0 < e")
    case False
    then show ?thesis by (subst pow_loop.simps) simp
  next
    case True
    define r' where "r' = (if e mod 2 = 1 then (r * b) mod m else r)"
    define b' where "b' = (b * b) mod m"
    have step: "pow_loop r b e m = pow_loop r' b' (e div 2) m"
      using True \<open>m \<noteq> 0\<close> by (subst pow_loop.simps) (simp add: py_mod_nz r'_def b'_def)
    have ih: "pow_loop r' b' (e div 2) m
               = Inr (if 0 < e div 2 then (r' * b' ^ nat (e div 2)) mod m else r')"
      using True \<open>m \<noteq> 0\<close> by (intro "1.IH") (auto simp: py_mod_nz r'_def b'_def)
    have sq: "(b' ^ k) mod m = (b ^ (2 * k)) mod m" for k
      by (simp add: b'_def power_mod power_mult power2_eq_square)
    show ?thesis
    proof (cases "0 < e div 2")
      case False
      with True have e1: "e = 1" by linarith
      then show ?thesis using step ih by (simp add: r'_def)
    next
      case h: True
      have "(r' * b' ^ nat (e div 2)) mod m = (r' * (b ^ (2 * nat (e div 2)) mod m)) mod m"
        by (metis sq mod_mult_right_eq)
      also have "\<dots> = (r' * b ^ (2 * nat (e div 2))) mod m"
        by (simp add: mod_mult_right_eq)
      also have "\<dots> = (r * b ^ nat e) mod m"
      proof (cases "e mod 2 = 1")
        case True
        then have "nat e = Suc (2 * nat (e div 2))"
          using nat_half_split [OF \<open>0 < e\<close>] by simp
        then show ?thesis using True
          by (simp add: r'_def mod_mult_left_eq mult.assoc)
      next
        case False
        then have "e mod 2 = 0" by presburger
        then have "nat e = 2 * nat (e div 2)"
          using nat_half_split [OF \<open>0 < e\<close>] by simp
        then show ?thesis using False by (simp add: r'_def)
      qed
      finally show ?thesis using step ih h True by simp
    qed
  qed
qed

lemma pow_mod_value:
  "m \<noteq> 0 \<Longrightarrow> pow_mod b e m = Inr (if 0 < e then (b ^ nat e) mod m else 1)"
  by (simp add: pow_mod_def py_mod_nz pow_loop_value power_mod)

text \<open>
  For a non-negative exponent and a positive modulus \<open>pow_mod\<close> returns
  \<open>(base mod modulus) ^ exponent mod modulus\<close>, a value in \<open>[0, modulus)\<close>, as soon as
  the loop body runs once or the modulus exceeds 1.
\<close>

lemma pow_mod_reduced:
  "0 \<le> e \<Longrightarrow> 0 < m \<Longrightarrow> 1 < m \<or> 0 < e \<Longrightarrow>
   pow_mod b e m = Inr ((b mod m) ^ nat e mod m) \<and>
   (b mod m) ^ nat e mod m = b ^ nat e mod m \<and>
   0 \<le> (b mod m) ^ nat e mod m \<and> (b mod m) ^ nat e mod m < m"
  by (auto simp: pow_mod_value power_mod)

text \<open>
  C7. For every base, every non-negative exponent and every positive modulus,
  \<open>pow_mod\<close> should return \<open>(base mod modulus) ^ exponent mod modulus\<close>, a value in
  \<open>[0, modulus)\<close>. The code misses modulus 1 with exponent 0: the loop body never runs
  and the initial \<open>result = 1\<close> is returned unreduced, so \<open>pow_mod(5, 0, 1)\<close> is 1, which
  is neither \<open>5 ^ 0 mod 1 = 0\<close> nor inside \<open>[0, 1)\<close>, while with a positive exponent the
  same modulus gives the reduced value: \<open>pow_mod(5, 3, 1)\<close> is 0.
\<close>

theorem pow_mod_modulus_one:
  "pow_mod 5 0 1 = Inr 1 \<and> pow_mod 5 0 1 \<noteq> Inr ((5 mod 1) ^ nat 0 mod 1) \<and> \<not> (1::int) < 1 \<and>
   pow_mod 5 3 1 = Inr 0"
  by (simp add: pow_mod_value)

section \<open>evaluate_polynomial is the polynomial's value modulo p\<close>

lemma poly_ref_snoc: "poly_ref (cs @ [c]) x = poly_ref cs x + c * x ^ length cs"
  by (simp add: poly_ref_def nth_append)

lemma horner_loop_value:
  "vss_p self \<noteq> 0 \<Longrightarrow>
   horner_loop self x cs r =
     Inr (if cs = [] then r else (r * x ^ length cs + poly_ref (rev cs) x) mod vss_p self)"
proof (induction cs arbitrary: r)
  case Nil
  then show ?case by simp
next
  case (Cons c cs)
  show ?case
  proof (cases "cs = []")
    case True
    then show ?thesis using Cons.prems by (simp add: py_mod_nz poly_ref_def)
  next
    case False
    have "((r * x + c) mod vss_p self * x ^ length cs + poly_ref (rev cs) x) mod vss_p self
          = ((r * x + c) * x ^ length cs + poly_ref (rev cs) x) mod vss_p self"
      by (rule mod_add_cong) (simp_all add: mod_mult_left_eq)
    also have "\<dots> = (r * x ^ length (c # cs) + poly_ref (rev (c # cs)) x) mod vss_p self"
      by (simp add: poly_ref_snoc algebra_simps)
    finally show ?thesis using Cons False by (simp add: py_mod_nz)
  qed
qed

lemma evaluate_polynomial_value:
  "vss_p self \<noteq> 0 \<Longrightarrow>
   evaluate_polynomial self coeffs x =
     Inr (if coeffs = [] then 0 else poly_ref coeffs x mod vss_p self)"
  by (simp add: evaluate_polynomial_def horner_loop_value)

text \<open>
  C8. For every coefficient list and every \<open>x\<close> (non-negative or not),
  \<open>evaluate_polynomial\<close> returns the reference sum of \<open>coeffs[j] * x^j\<close> reduced
  modulo \<open>p\<close>, a value in \<open>[0, p)\<close>; \<open>p\<close> is positive.
\<close>

theorem horner_refines_sum:
  "0 < vss_p self \<Longrightarrow>
   evaluate_polynomial self coeffs x = Inr (poly_ref coeffs x mod vss_p self) \<and>
   0 \<le> poly_ref coeffs x mod vss_p self \<and> poly_ref coeffs x mod vss_p self < vss_p self"
  by (simp add: evaluate_polynomial_value poly_ref_def)

theorem horner_refines_sum_witness:
  "0 < vss_p (PedersenVSS 7) \<and>
   evaluate_polynomial (PedersenVSS 7) [3, 1, 2] 2 = Inr 6 \<and> poly_ref [3, 1, 2] 2 mod 7 = 6"
  using horner_refines_sum [of "PedersenVSS 7" "[3, 1, 2]" 2]
  by (simp add: PedersenVSS_def poly_ref_def lessThan_Suc numeral_3_eq_3)

section \<open>mod_inverse\<close>

lemma extended_gcd_bezout:
  "extended_gcd a b = (g, x, y) \<Longrightarrow> a * x + b * y = g"
proof (induction a b arbitrary: g x y rule: extended_gcd.induct)
  case (1 a b)
  show ?case
  proof (cases "a = 0")
    case True
    with "1.prems" show ?thesis by (simp add: extended_gcd.simps)
  next
    case False
    obtain g' x1 y1 where rec: "extended_gcd (b mod a) a = (g', x1, y1)"
      by (cases "extended_gcd (b mod a) a") auto
    from "1.prems" False rec have eqs: "g = g'" "x = y1 - (b div a) * x1" "y = x1"
      by (auto simp: extended_gcd.simps [of a b])
    have ih: "(b mod a) * x1 + a * y1 = g'"
      using "1.IH" [OF False rec] .
    have r: "b mod a = b - a * (b div a)"
      by (simp add: minus_mult_div_eq_mod)
    have "a * x + b * y = (b mod a) * x1 + a * y1"
      unfolding eqs r by (simp add: algebra_simps)
    then show ?thesis using ih eqs by simp
  qed
qed

lemma extended_gcd_fst:
  "0 \<le> a \<Longrightarrow> 0 \<le> b \<Longrightarrow> fst (extended_gcd a b) = gcd a b"
proof (induction a b rule: extended_gcd.induct)
  case (1 a b)
  show ?case
  proof (cases "a = 0")
    case True
    with "1.prems" show ?thesis by (simp add: extended_gcd.simps)
  next
    case False
    with "1.prems" have pos: "0 < a" by simp
    then have nn: "0 \<le> b mod a" by simp
    have "fst (extended_gcd a b) = fst (extended_gcd (b mod a) a)"
      using False by (subst extended_gcd.simps) (simp add: split_beta)
    also have "\<dots> = gcd (b mod a) a"
      using "1.IH" [OF False nn] "1.prems" by simp
    also have "\<dots> = gcd a b"
      by (metis gcd.commute gcd_red_int)
    finally show ?thesis .
  qed
qed


lemma mod_inverse_cases:
  assumes "m \<noteq> 0"
  obtains g x y where "extended_gcd (a mod m) m = (g, x, y)"
    and "mod_inverse a m =
           (if g \<noteq> 1 then Inl (ValueError ''Modular inverse does not exist'')
            else Inr (x mod m))"
proof -
  obtain g x y where e: "extended_gcd (a mod m) m = (g, x, y)"
    by (cases "extended_gcd (a mod m) m") auto
  have "mod_inverse a m =
           (if g \<noteq> 1 then Inl (ValueError ''Modular inverse does not exist'')
            else Inr (x mod m))"
    using assms e by (simp add: mod_inverse_def py_mod_nz)
  with e show ?thesis by (rule that)
qed

lemma mod_inverse_fails:
  assumes "0 < m" "gcd a m \<noteq> 1"
  shows "mod_inverse a m = Inl (ValueError ''Modular inverse does not exist'')"
proof -
  from assms have "m \<noteq> 0" by simp
  then obtain g x y where e: "extended_gcd (a mod m) m = (g, x, y)"
    and r: "mod_inverse a m =
           (if g \<noteq> 1 then Inl (ValueError ''Modular inverse does not exist'')
            else Inr (x mod m))"
    by (rule mod_inverse_cases)
  have "g = gcd (a mod m) m"
    using extended_gcd_fst [of "a mod m" m] assms e by simp
  then have "g = gcd a m" by (metis gcd.commute gcd_red_int)
  with r assms show ?thesis by simp
qed

lemma mod_inverse_returns:
  assumes "0 < m" "gcd a m = 1"
  shows "\<exists>x. mod_inverse a m = Inr x \<and> 0 \<le> x \<and> x < m \<and> (a * x) mod m = 1 mod m"
proof -
  from assms have "m \<noteq> 0" by simp
  then obtain g x y where e: "extended_gcd (a mod m) m = (g, x, y)"
    and r: "mod_inverse a m =
           (if g \<noteq> 1 then Inl (ValueError ''Modular inverse does not exist'')
            else Inr (x mod m))"
    by (rule mod_inverse_cases)
  have "g = gcd (a mod m) m"
    using extended_gcd_fst [of "a mod m" m] assms e by simp
  then have g: "g = 1" using assms by (metis gcd.commute gcd_red_int)
  have bez: "(a mod m) * x + m * y = 1"
    using extended_gcd_bezout [OF e] g by simp
  have "(a * (x mod m)) mod m = ((a mod m) * x) mod m"
    by (simp add: mod_mult_left_eq mod_mult_right_eq)
  also have "\<dots> = ((a mod m) * x + m * y) mod m"
    by simp
  also have "\<dots> = 1 mod m"
    using bez by simp
  finally have "(a * (x mod m)) mod m = 1 mod m" .
  with r g assms show ?thesis by simp
qed

lemma inverse_unique:
  assumes "1 < m" "(a * x) mod m = 1" "(a * y) mod m = 1" "0 \<le> x" "x < m" "0 \<le> y" "y < m"
  shows "y = (x::int)"
proof -
  have "(a * x) mod m = (a * y) mod m" using assms by simp
  then have d: "m dvd a * x - a * y" by (simp add: mod_eq_dvd_iff)
  have "coprime a m"
  proof (rule coprimeI)
    fix c assume c: "c dvd a" "c dvd m"
    then have "c dvd a * x" by simp
    then have "c dvd (a * x) mod m" using c by (simp add: dvd_mod)
    then show "is_unit c" using assms by simp
  qed
  then have "coprime m a" by (simp add: coprime_commute)
  moreover have "m dvd a * (x - y)" using d by (simp add: right_diff_distrib)
  ultimately have "m dvd x - y" by (simp add: coprime_dvd_mult_right_iff)
  moreover have "\<bar>x - y\<bar> < m" using assms by linarith
  ultimately have "x - y = 0"
    using zdvd_not_zless [of "\<bar>x - y\<bar>" m] by (cases "x - y = 0") simp_all
  then show ?thesis by simp
qed

text \<open>
  C6. For every integer \<open>a\<close> and every modulus \<open>m > 1\<close>, \<open>mod_inverse\<close> raises the
  ValueError "Modular inverse does not exist" when \<open>gcd a m\<close> is not 1, and when it is 1
  it returns the one \<open>x\<close> in \<open>[0, m)\<close> with \<open>(a * x) mod m = 1\<close>; so it fails exactly
  when the gcd is not 1.
\<close>

theorem mod_inverse_contract:
  "1 < m \<Longrightarrow>
   (gcd a m \<noteq> 1 \<longrightarrow> mod_inverse a m = Inl (ValueError ''Modular inverse does not exist'')) \<and>
   (gcd a m = 1 \<longrightarrow>
      (\<exists>x. mod_inverse a m = Inr x \<and> 0 \<le> x \<and> x < m \<and> (a * x) mod m = 1 \<and>
           (\<forall>y. 0 \<le> y \<and> y < m \<and> (a * y) mod m = 1 \<longrightarrow> y = x)))"
proof (intro conjI impI)
  assume "1 < m" "gcd a m \<noteq> 1"
  then show "mod_inverse a m = Inl (ValueError ''Modular inverse does not exist'')"
    by (simp add: mod_inverse_fails)
next
  assume m: "1 < m" and g: "gcd a m = 1"
  then obtain x where x: "mod_inverse a m = Inr x" "0 \<le> x" "x < m" "(a * x) mod m = 1 mod m"
    using mod_inverse_returns [of m a] by auto
  then have x1: "(a * x) mod m = 1" using m by simp
  have "\<forall>y. 0 \<le> y \<and> y < m \<and> (a * y) mod m = 1 \<longrightarrow> y = x"
    using inverse_unique [OF m x1] x by blast
  with x x1 show "\<exists>x. mod_inverse a m = Inr x \<and> 0 \<le> x \<and> x < m \<and> (a * x) mod m = 1 \<and>
           (\<forall>y. 0 \<le> y \<and> y < m \<and> (a * y) mod m = 1 \<longrightarrow> y = x)"
    by blast
qed

theorem mod_inverse_contract_witness:
  "(1::int) < 7 \<and> gcd (3::int) 7 = 1 \<and> mod_inverse 3 7 = Inr 5 \<and> (3 * 5) mod 7 = (1::int) \<and>
   gcd (4::int) 6 \<noteq> 1 \<and> mod_inverse 4 6 = Inl (ValueError ''Modular inverse does not exist'')"
proof -
  have a: "(1::int) < 7" and b: "(1::int) < 6" by simp_all
  have g1: "gcd (3::int) 7 = 1" by code_simp
  have g2: "gcd (4::int) 6 \<noteq> 1" by code_simp
  have "gcd (3::int) 7 = 1 \<longrightarrow>
      (\<exists>x. mod_inverse 3 7 = Inr x \<and> 0 \<le> x \<and> x < 7 \<and> (3 * x) mod 7 = 1 \<and>
           (\<forall>y. 0 \<le> y \<and> y < 7 \<and> (3 * y) mod 7 = 1 \<longrightarrow> y = x))"
    using mod_inverse_contract [OF a, of 3] by (rule conjunct2)
  then have "\<exists>x. mod_inverse 3 7 = Inr x \<and> 0 \<le> x \<and> x < 7 \<and> (3 * x) mod 7 = 1 \<and>
           (\<forall>y. 0 \<le> y \<and> y < 7 \<and> (3 * y) mod 7 = 1 \<longrightarrow> y = x)"
    using g1 by (rule mp)
  then obtain x where xx: "mod_inverse 3 7 = Inr x \<and> 0 \<le> x \<and> x < 7 \<and> (3 * x) mod 7 = 1 \<and>
           (\<forall>y. 0 \<le> y \<and> y < 7 \<and> (3 * y) mod 7 = 1 \<longrightarrow> y = x)" ..
  from xx have x: "mod_inverse 3 7 = Inr x"
    by (elim conjE)
  from xx have u: "\<forall>y. 0 \<le> y \<and> y < 7 \<and> (3 * y) mod 7 = 1 \<longrightarrow> y = x"
    by (elim conjE)
  have five: "0 \<le> (5::int) \<and> (5::int) < 7 \<and> (3 * 5) mod 7 = (1::int)" by simp
  from u have "0 \<le> (5::int) \<and> (5::int) < 7 \<and> (3 * 5) mod 7 = (1::int) \<longrightarrow> 5 = x"
    by (rule spec)
  then have "5 = x" using five by (rule mp)
  with x have r1: "mod_inverse 3 7 = Inr 5" by simp
  have "gcd (4::int) 6 \<noteq> 1 \<longrightarrow> mod_inverse 4 6 = Inl (ValueError ''Modular inverse does not exist'')"
    using mod_inverse_contract [OF b, of 4] by (rule conjunct1)
  with g2 have r2: "mod_inverse 4 6 = Inl (ValueError ''Modular inverse does not exist'')"
    by (rule mp [rotated])
  show ?thesis
    using a g1 g2 r1 r2 by simp
qed

section \<open>generate_shares_and_commitments\<close>

lemma generate_loop_value:
  "0 < vss_p self \<Longrightarrow>
   generate_loop self k cs (tape, pos) =
     Inr (cs @ map tape [pos..<pos + k], (tape, pos + k))"
proof (induction k arbitrary: cs pos)
  case 0
  then show ?case by simp
next
  case (Suc k)
  have "[pos..<pos + Suc k] = pos # [Suc pos..<Suc pos + k]"
    by (simp add: upt_rec)
  then show ?case using Suc by (simp add: randbelow_def)
qed

lemma generate_polynomial_value:
  "0 < vss_p self \<Longrightarrow>
   generate_polynomial self secret threshold (tape, pos) =
     Inr (secret # map tape [pos..<pos + nat (threshold - 1)], (tape, pos + nat (threshold - 1)))"
  by (simp add: generate_polynomial_def generate_loop_value)

lemma evaluate_polynomial_nz:
  "vss_p self \<noteq> 0 \<Longrightarrow> evaluate_polynomial self coeffs x = Inr (poly_ref coeffs x mod vss_p self)"
  by (simp add: evaluate_polynomial_value poly_ref_def)

lemma shares_loop_value:
  "vss_p self \<noteq> 0 \<Longrightarrow>
   shares_loop self f g is acc =
     Inr (acc @ map (\<lambda>i. (poly_ref f i mod vss_p self, poly_ref g i mod vss_p self)) is)"
  by (induction "is" arbitrary: acc) (simp_all add: evaluate_polynomial_nz)

lemma commitment_value:
  "vss_p self \<noteq> 0 \<Longrightarrow> j < length f \<Longrightarrow> j < length g \<Longrightarrow>
   commitment self f g j =
     Inr ((pow_val (vss_g self) (f ! j) (vss_p self) * pow_val (vss_h self) (g ! j) (vss_p self))
            mod vss_p self)"
  by (simp add: commitment_def py_index_def pow_mod_value py_mod_nz pow_val_def)

lemma commitments_loop_value:
  "vss_p self \<noteq> 0 \<Longrightarrow> \<forall>j\<in>set js. j < length f \<and> j < length g \<Longrightarrow>
   commitments_loop self f g js acc =
     Inr (acc @ map (\<lambda>j. (pow_val (vss_g self) (f ! j) (vss_p self)
                           * pow_val (vss_h self) (g ! j) (vss_p self)) mod vss_p self) js)"
  by (induction js arbitrary: acc) (simp_all add: commitment_value)

lemma pow_val_nonneg:
  "0 \<le> e \<Longrightarrow> (pow_val a e m * c) mod m = (a ^ nat e * c) mod m"
  by (cases "e = 0") (simp_all add: pow_val_def mod_mult_left_eq)

lemma generate_value:
  fixes self :: vss and secret threshold num_shares :: int and tape :: "nat \<Rightarrow> int" and pos :: nat
  assumes "0 < vss_p self"
  defines "k \<equiv> nat (threshold - 1)"
  defines "f \<equiv> secret # map tape [pos..<pos + k]"
  defines "g \<equiv> 0 # map tape [pos + k..<pos + k + k]"
  shows "generate_shares_and_commitments self secret threshold num_shares (tape, pos) =
     Inr ((map (\<lambda>i. (poly_ref f i mod vss_p self, poly_ref g i mod vss_p self)) [1..num_shares],
           map (\<lambda>j. (pow_val (vss_g self) (f ! j) (vss_p self)
                       * pow_val (vss_h self) (g ! j) (vss_p self)) mod vss_p self)
               [0..<nat threshold],
           f),
          (tape, pos + k + k))"
proof -
  have nz: "vss_p self \<noteq> 0" using assms by simp
  have len: "\<forall>j\<in>set [0..<nat threshold]. j < length f \<and> j < length g"
    by (auto simp: f_def g_def k_def)
  show ?thesis
    unfolding generate_shares_and_commitments_def
    using assms(1) nz len
    by (simp add: generate_polynomial_value shares_loop_value commitments_loop_value
          f_def [symmetric] g_def [symmetric] k_def [symmetric])
qed

text \<open>
  C5. \<open>generate_shares_and_commitments\<close> was claimed to reject \<open>threshold < 1\<close> and
  \<open>num_shares < threshold\<close>. The function has no check of its arguments: with the default
  prime it returns for threshold 0 (three shares, no commitment) and for one share with
  threshold 3. What holds is that, for a positive \<open>p\<close>, the call returns for every
  secret, threshold and number of shares: \<open>max(num_shares, 0)\<close> shares,
  \<open>max(threshold, 0)\<close> commitments and \<open>max(threshold, 1)\<close> coefficients of f.
\<close>

theorem generate_accepts_any_threshold:
  "(case generate_shares_and_commitments (PedersenVSS default_prime) 42 0 3 (\<lambda>k. 0, 0) of
      Inl e \<Rightarrow> None | Inr (res, r) \<Rightarrow> Some res)
     = Some ([(42, 0), (42, 0), (42, 0)], [], [42]) \<and>
   (case generate_shares_and_commitments (PedersenVSS default_prime) 42 3 1 (\<lambda>k. 0, 0) of
      Inl e \<Rightarrow> None | Inr (res, r) \<Rightarrow> Some res)
     = Some ([(42, 0)], [4398046511104, 1, 1], [42, 0, 0])"
  by code_simp

theorem generate_never_validates:
  fixes self :: vss and secret threshold num_shares :: int and tape :: "nat \<Rightarrow> int" and pos :: nat
  assumes "0 < vss_p self"
  shows "\<exists>shares commitments f_coeffs r'.
     generate_shares_and_commitments self secret threshold num_shares (tape, pos)
       = Inr ((shares, commitments, f_coeffs), r') \<and>
     length shares = nat num_shares \<and>
     length commitments = nat threshold \<and>
     length f_coeffs = Suc (nat (threshold - 1))"
  by (simp add: generate_value [OF assms])

theorem generate_never_validates_witness:
  "0 < vss_p (PedersenVSS default_prime) \<and>
   (\<exists>shares commitments f_coeffs r'.
     generate_shares_and_commitments (PedersenVSS default_prime) 42 0 3 (\<lambda>k. 0, 0)
       = Inr ((shares, commitments, f_coeffs), r') \<and>
     length shares = nat 3 \<and>
     length commitments = nat 0 \<and>
     length f_coeffs = Suc (nat (0 - 1)))"
proof -
  have h: "0 < vss_p (PedersenVSS default_prime)"
    by (simp add: PedersenVSS_def default_prime_def)
  show ?thesis
    using h generate_never_validates [OF h, where secret = 42 and threshold = 0
        and num_shares = 3 and tape = "\<lambda>k. 0" and pos = 0]
    by (rule conjI)
qed

text \<open>
  C9. For \<open>threshold \<ge> 1\<close> and \<open>num_shares \<ge> 1\<close> (\<open>p\<close> positive, the random draws in
  \<open>[0, p)\<close>), generation builds \<open>f_coeffs\<close> and \<open>g_coeffs\<close> of length \<open>threshold\<close> with
  constant terms \<open>secret\<close> and \<open>0\<close>, returns \<open>num_shares\<close> shares, share \<open>i\<close> being the two
  polynomials evaluated at \<open>i\<close>, and \<open>threshold\<close> commitments, commitment \<open>j\<close> being
  the product modulo \<open>p\<close> of what \<open>pow_mod\<close> returns for \<open>g\<close>, \<open>f_coeffs[j]\<close> and for
  \<open>h\<close>, \<open>g_coeffs[j]\<close>; for a non-negative secret that is
  \<open>(g ^ f_coeffs[j] * h ^ g_coeffs[j]) mod p\<close>.
\<close>

theorem generation_structure:
  fixes self :: vss and secret t n :: int and tape :: "nat \<Rightarrow> int" and pos :: nat
  assumes p: "0 < vss_p self" and t: "1 \<le> t" and n: "1 \<le> n"
    and tape: "\<forall>k. 0 \<le> tape k \<and> tape k < vss_p self"
  shows "\<exists>f_coeffs g_coeffs r1 r2 shares commitments.
     generate_polynomial self secret t (tape, pos) = Inr (f_coeffs, r1) \<and>
     generate_polynomial self 0 t r1 = Inr (g_coeffs, r2) \<and>
     length f_coeffs = nat t \<and> f_coeffs ! 0 = secret \<and>
     length g_coeffs = nat t \<and> g_coeffs ! 0 = 0 \<and>
     generate_shares_and_commitments self secret t n (tape, pos)
       = Inr ((shares, commitments, f_coeffs), r2) \<and>
     length shares = nat n \<and>
     (\<forall>i. 1 \<le> i \<and> i \<le> n \<longrightarrow>
        evaluate_polynomial self f_coeffs i = Inr (fst (shares ! nat (i - 1))) \<and>
        evaluate_polynomial self g_coeffs i = Inr (snd (shares ! nat (i - 1)))) \<and>
     length commitments = nat t \<and>
     (\<forall>j<nat t. \<exists>a b.
        pow_mod (vss_g self) (f_coeffs ! j) (vss_p self) = Inr a \<and>
        pow_mod (vss_h self) (g_coeffs ! j) (vss_p self) = Inr b \<and>
        commitments ! j = (a * b) mod vss_p self) \<and>
     (0 \<le> secret \<longrightarrow>
        (\<forall>j<nat t. commitments ! j =
           (vss_g self ^ nat (f_coeffs ! j) * vss_h self ^ nat (g_coeffs ! j)) mod vss_p self))"
proof -
  define k where "k = nat (t - 1)"
  define f where "f = secret # map tape [pos..<pos + k]"
  define g where "g = 0 # map tape [pos + k..<pos + k + k]"
  define shares where
    "shares = map (\<lambda>i. (poly_ref f i mod vss_p self, poly_ref g i mod vss_p self)) [1..n]"
  define commitments where
    "commitments = map (\<lambda>j. (pow_val (vss_g self) (f ! j) (vss_p self)
                       * pow_val (vss_h self) (g ! j) (vss_p self)) mod vss_p self)
               [0..<nat t]"
  have nz: "vss_p self \<noteq> 0" using p by simp
  have kt: "Suc k = nat t" using t by (simp add: k_def)
  have gen: "generate_shares_and_commitments self secret t n (tape, pos)
       = Inr ((shares, commitments, f), (tape, pos + k + k))"
    unfolding shares_def commitments_def f_def g_def k_def by (rule generate_value [OF p])
  have gf: "generate_polynomial self secret t (tape, pos) = Inr (f, (tape, pos + k))"
    by (simp add: generate_polynomial_value [OF p] f_def k_def)
  have gg: "generate_polynomial self 0 t (tape, pos + k) = Inr (g, (tape, pos + k + k))"
    by (simp add: generate_polynomial_value [OF p] g_def k_def)
  have lf: "length f = nat t" "length g = nat t"
    using kt by (simp_all add: f_def g_def)
  have hd: "f ! 0 = secret" "g ! 0 = 0"
    by (simp_all add: f_def g_def)
  have ls: "length shares = nat n"
    by (simp add: shares_def)
  have sh: "evaluate_polynomial self f i = Inr (fst (shares ! nat (i - 1))) \<and>
            evaluate_polynomial self g i = Inr (snd (shares ! nat (i - 1)))"
    if "1 \<le> i \<and> i \<le> n" for i
  proof -
    have "nat (i - 1) < length [1..n]" using that by simp
    moreover have "[1..n] ! nat (i - 1) = i" using that by simp
    ultimately have "shares ! nat (i - 1) = (poly_ref f i mod vss_p self, poly_ref g i mod vss_p self)"
      unfolding shares_def by (simp only: nth_map)
    then show ?thesis by (simp add: evaluate_polynomial_nz [OF nz])
  qed
  have lc: "length commitments = nat t"
    by (simp add: commitments_def)
  have cj: "commitments ! j = (pow_val (vss_g self) (f ! j) (vss_p self)
                       * pow_val (vss_h self) (g ! j) (vss_p self)) mod vss_p self"
    if "j < nat t" for j
    using that by (simp add: commitments_def)
  have pm: "\<exists>a b.
        pow_mod (vss_g self) (f ! j) (vss_p self) = Inr a \<and>
        pow_mod (vss_h self) (g ! j) (vss_p self) = Inr b \<and>
        commitments ! j = (a * b) mod vss_p self"
    if "j < nat t" for j
    using cj [OF that] by (simp add: pow_mod_value [OF nz] pow_val_def)
  have nonneg_g: "0 \<le> g ! j" if "j < nat t" for j
  proof (cases j)
    case 0
    then show ?thesis by (simp add: g_def)
  next
    case (Suc j')
    then show ?thesis using that tape kt by (simp add: g_def)
  qed
  have nonneg_f: "0 \<le> f ! j" if "j < nat t" "0 \<le> secret" for j
  proof (cases j)
    case 0
    then show ?thesis using that by (simp add: f_def)
  next
    case (Suc j')
    then show ?thesis using that tape kt by (simp add: f_def)
  qed
  have mathpow: "commitments ! j =
           (vss_g self ^ nat (f ! j) * vss_h self ^ nat (g ! j)) mod vss_p self"
    if "j < nat t" "0 \<le> secret" for j
  proof -
    have "commitments ! j = (pow_val (vss_g self) (f ! j) (vss_p self)
                       * pow_val (vss_h self) (g ! j) (vss_p self)) mod vss_p self"
      using cj that by simp
    also have "\<dots> = (vss_g self ^ nat (f ! j) * pow_val (vss_h self) (g ! j) (vss_p self)) mod vss_p self"
      using nonneg_f [OF that] by (rule pow_val_nonneg)
    also have "\<dots> = (pow_val (vss_h self) (g ! j) (vss_p self) * vss_g self ^ nat (f ! j)) mod vss_p self"
      by (simp add: mult.commute)
    also have "\<dots> = (vss_h self ^ nat (g ! j) * vss_g self ^ nat (f ! j)) mod vss_p self"
      using nonneg_g [OF that(1)] by (rule pow_val_nonneg)
    finally show ?thesis by (simp add: mult.commute)
  qed
  show ?thesis
    apply (rule exI [of _ f], rule exI [of _ g])
    apply (rule exI [of _ "(tape, pos + k)"], rule exI [of _ "(tape, pos + k + k)"])
    apply (rule exI [of _ shares], rule exI [of _ commitments])
    using gf gg lf hd gen ls sh lc pm mathpow by blast
qed


theorem generation_structure_witness:
  "0 < vss_p (PedersenVSS 7) \<and> (1::int) \<le> 2 \<and>
   (\<forall>k::nat. 0 \<le> (1::int) \<and> (1::int) < vss_p (PedersenVSS 7)) \<and>
   (\<exists>shares commitments f_coeffs r2.
      generate_shares_and_commitments (PedersenVSS 7) 3 2 2 (\<lambda>k. 1, 0)
        = Inr ((shares, commitments, f_coeffs), r2) \<and>
      length shares = nat 2 \<and> length commitments = nat 2 \<and>
      length f_coeffs = nat 2 \<and> f_coeffs ! 0 = 3)"
proof -
  have h1: "0 < vss_p (PedersenVSS 7)" by (simp add: PedersenVSS_def)
  have h2: "(1::int) \<le> 2" by simp
  have h4: "\<forall>k::nat. 0 \<le> (\<lambda>k. 1::int) k \<and> (\<lambda>k. 1::int) k < vss_p (PedersenVSS 7)"
    by (simp add: PedersenVSS_def)
  have "\<exists>shares commitments f_coeffs r2.
      generate_shares_and_commitments (PedersenVSS 7) 3 2 2 (\<lambda>k. 1, 0)
        = Inr ((shares, commitments, f_coeffs), r2) \<and>
      length shares = nat 2 \<and> length commitments = nat 2 \<and>
      length f_coeffs = nat 2 \<and> f_coeffs ! 0 = 3"
    using generation_structure [OF h1 h2 h2 h4, where secret = 3 and pos = 0] by blast
  with h1 h2 h4 show ?thesis by simp
qed

section \<open>lagrange_interpolation: failure on a repeated index\<close>

lemma skip_prod_zero:
  "k < length vs \<Longrightarrow> j + k \<noteq> i \<Longrightarrow> vs ! k = 0 \<Longrightarrow> skip_prod i j vs = 0"
proof (induction vs arbitrary: j k)
  case Nil
  then show ?case by simp
next
  case (Cons v vs)
  show ?case
  proof (cases k)
    case 0
    with Cons.prems show ?thesis by simp
  next
    case (Suc k')
    with Cons.prems have "skip_prod i (Suc j) vs = 0"
      by (intro Cons.IH [of k']) simp_all
    then show ?thesis by auto
  qed
qed

lemma lagrange_inner_value:
  assumes "vss_p self \<noteq> 0"
  shows "\<exists>n d. lagrange_inner self i x_i rest j (num, den) = Inr (n, d) \<and>
           n mod vss_p self = (num * skip_prod i j (map (\<lambda>s. - fst s) rest)) mod vss_p self \<and>
           d mod vss_p self = (den * skip_prod i j (map (\<lambda>s. x_i - fst s) rest)) mod vss_p self"
proof (induction rest arbitrary: j num den)
  case Nil
  then show ?case by simp
next
  case (Cons s rest)
  obtain x_j sh where s: "s = (x_j, sh)" by (cases s)
  show ?case
  proof (cases "i = j")
    case True
    then show ?thesis using Cons.IH [of "Suc j" num den] s by simp
  next
    case False
    define num' where "num' = (num * (- x_j)) mod vss_p self"
    define den' where "den' = (den * (x_i - x_j)) mod vss_p self"
    define A where "A = skip_prod i (Suc j) (map (\<lambda>s. - fst s) rest)"
    define B where "B = skip_prod i (Suc j) (map (\<lambda>s. x_i - fst s) rest)"
    from Cons.IH [of "Suc j" num' den'] obtain n d where
      r: "lagrange_inner self i x_i rest (Suc j) (num', den') = Inr (n, d)"
      and n: "n mod vss_p self = (num' * A) mod vss_p self"
      and d: "d mod vss_p self = (den' * B) mod vss_p self"
      unfolding A_def B_def by blast
    have step: "lagrange_inner self i x_i (s # rest) j (num, den) = Inr (n, d)"
      using False s r assms by (simp add: py_mod_nz num'_def den'_def)
    have "(num' * A) mod vss_p self = (num * (- x_j * A)) mod vss_p self"
      by (simp add: num'_def mod_mult_left_eq mult.assoc)
    moreover have "(den' * B) mod vss_p self = (den * ((x_i - x_j) * B)) mod vss_p self"
      by (simp add: den'_def mod_mult_left_eq mult.assoc)
    ultimately show ?thesis
      using step n d False s by (simp add: A_def B_def)
  qed
qed

lemma gcd_mod_cong:
  "a mod m = b mod m \<Longrightarrow> gcd a m = gcd (b::int) m"
  by (metis gcd.commute gcd_red_int)

lemma lagrange_outer_fails:
  assumes p: "1 < vss_p self"
  shows "\<exists>k<length rest. gcd (den_of shares (i + k) (fst (rest ! k))) (vss_p self) \<noteq> 1 \<Longrightarrow>
         lagrange_outer self shares rest i secret
           = Inl (ValueError ''Modular inverse does not exist'')"
proof (induction rest arbitrary: i secret)
  case Nil
  then show ?case by simp
next
  case (Cons s rest)
  obtain x_i f_i g_i where s: "s = (x_i, (f_i, g_i))" by (cases s) auto
  have nz: "vss_p self \<noteq> 0" using p by simp
  obtain n d where
    r: "lagrange_inner self i x_i shares 0 (1, 1) = Inr (n, d)"
    and d: "d mod vss_p self = (1 * skip_prod i 0 (map (\<lambda>s. x_i - fst s) shares)) mod vss_p self"
    using lagrange_inner_value [OF nz, of i x_i shares 0 1 1] by blast
  have gd: "gcd d (vss_p self) = gcd (den_of shares i x_i) (vss_p self)"
    using d by (intro gcd_mod_cong) (simp add: den_of_def)
  show ?case
  proof (cases "gcd (den_of shares i x_i) (vss_p self) = 1")
    case False
    then have "mod_inverse d (vss_p self) = Inl (ValueError ''Modular inverse does not exist'')"
      using gd p by (intro mod_inverse_fails) simp_all
    then show ?thesis using s r by simp
  next
    case True
    from Cons.prems obtain k where k: "k < length (s # rest)"
      "gcd (den_of shares (i + k) (fst ((s # rest) ! k))) (vss_p self) \<noteq> 1" by blast
    with True s obtain k' where k': "k = Suc k'" by (cases k) auto
    with k have ex: "\<exists>k<length rest. gcd (den_of shares (Suc i + k) (fst (rest ! k))) (vss_p self) \<noteq> 1"
      by auto
    obtain dinv where dinv: "mod_inverse d (vss_p self) = Inr dinv"
      using mod_inverse_returns [of "vss_p self" d] p gd True by auto
    show ?thesis
      using s r dinv nz Cons.IH [OF ex] by (simp add: py_mod_nz)
  qed
qed

text \<open>
  C4. When the list holds at least \<open>threshold\<close> shares and two of the first
  \<open>threshold\<close> entries (positions \<open>a < b\<close>) carry the same index, the denominator of
  the Lagrange coefficient at position \<open>a\<close> is 0 modulo \<open>p\<close>, and
  \<open>lagrange_interpolation\<close> raises the ValueError "Modular inverse does not exist" of
  \<open>mod_inverse\<close> instead of returning a value; \<open>p\<close> exceeds 1.
\<close>

theorem duplicate_index_fails:
  assumes "1 < vss_p self" and "threshold \<le> int (length shares)"
    and "a < b" and "int b < threshold" and "fst (shares ! a) = fst (shares ! b)"
  shows "lagrange_interpolation self shares threshold
           = Inl (ValueError ''Modular inverse does not exist'')"
proof -
  define sel where "sel = py_slice_to shares threshold"
  have sel: "sel = take (nat threshold) shares"
    using assms by (simp add: sel_def py_slice_to_def)
  have b: "b < length sel" and a: "a < length sel"
    using assms by (simp_all add: sel)
  have eq: "fst (sel ! a) = fst (sel ! b)"
    using assms a b by (simp add: sel)
  have "den_of sel a (fst (sel ! a)) = 0"
    unfolding den_of_def
    using b assms(3) eq by (intro skip_prod_zero [of b]) simp_all
  then have "gcd (den_of sel (0 + a) (fst (sel ! a))) (vss_p self) \<noteq> 1"
    using assms(1) by simp
  with a have "\<exists>k<length sel. gcd (den_of sel (0 + k) (fst (sel ! k))) (vss_p self) \<noteq> 1"
    by blast
  then have "lagrange_outer self sel sel 0 0 = Inl (ValueError ''Modular inverse does not exist'')"
    by (rule lagrange_outer_fails [OF assms(1)])
  then show ?thesis
    using assms(2) by (simp add: lagrange_interpolation_def sel_def Let_def)
qed

theorem duplicate_index_fails_witness:
  "1 < vss_p (PedersenVSS 7) \<and> (2::int) \<le> int (length [(1, (4, 0)), (1, (5, 0)) :: revealed]) \<and>
   (0::nat) < 1 \<and> int 1 < (2::int) \<and>
   fst ([(1, (4, 0)), (1, (5, 0)) :: revealed] ! 0) = fst ([(1, (4, 0)), (1, (5, 0)) :: revealed] ! 1) \<and>
   lagrange_interpolation (PedersenVSS 7) [(1, (4, 0)), (1, (5, 0))] 2
     = Inl (ValueError ''Modular inverse does not exist'')"
proof -
  have h1: "1 < vss_p (PedersenVSS 7)" by (simp add: PedersenVSS_def)
  have h2: "(2::int) \<le> int (length [(1, (4, 0)), (1, (5, 0)) :: revealed])" by simp
  have h3: "(0::nat) < 1" by simp
  have h4: "int 1 < (2::int)" by simp
  have h5: "fst ([(1, (4, 0)), (1, (5, 0)) :: revealed] ! 0)
          = fst ([(1, (4, 0)), (1, (5, 0)) :: revealed] ! 1)" by simp
  show ?thesis
    using h1 h2 h3 h4 h5 duplicate_index_fails [OF h1 h2 h3 h4 h5] by blast
qed

end
